theory Spec2Isabelle
  imports Complex_Main "HOL-Library.Word"
begin

section \<open>Characters and C strings\<close>

text \<open>
  A C \<^verbatim>\<open>char\<close> is a byte, an Isabelle \<^typ>\<open>char\<close>. The three bytes that
  \<^verbatim>\<open>SerialManager.h\<close> treats specially are the string terminator
  \<^verbatim>\<open>'\0'\<close>, the carriage return \<^verbatim>\<open>'\r'\<close> and the newline
  \<^verbatim>\<open>'\n'\<close>.
\<close>

abbreviation NUL :: char where "NUL \<equiv> CHR 0x00"
abbreviation CR :: char where "CR \<equiv> CHR 0x0D"
abbreviation LF :: char where "LF \<equiv> CHR 0x0A"

text \<open>
  \<^verbatim>\<open>isspace((unsigned char)c)\<close> of \<^verbatim>\<open>ctype.h\<close> in the C locale (the only
  locale of the Arduino core): space, \<^verbatim>\<open>\t\<close>, \<^verbatim>\<open>\n\<close>, \<^verbatim>\<open>\v\<close>,
  \<^verbatim>\<open>\f\<close> and \<^verbatim>\<open>\r\<close>. The cast to \<^verbatim>\<open>unsigned char\<close> makes every byte
  above 127 a legal argument; none of them is a space.
\<close>

definition isspace :: "char \<Rightarrow> bool" where
  "isspace c \<longleftrightarrow>
     c = CHR 0x20 \<or> c = CHR 0x09 \<or> c = CHR 0x0A \<or> c = CHR 0x0B \<or> c = CHR 0x0C \<or> c = CHR 0x0D"

text \<open>
  The string a \<^verbatim>\<open>const char *\<close> to the start of an array denotes: the bytes
  before the first \<^verbatim>\<open>'\0'\<close>.
\<close>

definition c_str :: "char list \<Rightarrow> string" where
  "c_str buf = takeWhile (\<lambda>c. c \<noteq> NUL) buf"

section \<open>What the interpreter does to the outside\<close>

text \<open>
  Every function of \<^verbatim>\<open>SerialManager.h\<close> returns \<^verbatim>\<open>void\<close>; what it does is
  a sequence of calls on \<^verbatim>\<open>Serial\<close> and on the functions of the main sketch
  declared \<^verbatim>\<open>extern\<close> at lines 18 to 25. None of these calls returns a value
  and no branch of the interpreter reads a global of the sketch, so a function
  of the interpreter is modelled by the list of calls it makes, in order. The
  two globals \<^verbatim>\<open>vol_knob_gain_dB\<close> and \<^verbatim>\<open>delay_ms\<close> are only ever
  handed to \<^verbatim>\<open>Serial.print\<close>: those calls are events of their own, which
  read the global when they are run.

  The type \<open>'f\<close> stands for \<^verbatim>\<open>float\<close>.
\<close>

datatype 'f event =
    Serial_println_empty                 \<comment> \<open>\<^verbatim>\<open>Serial.println()\<close>\<close>
  | Serial_print string                  \<comment> \<open>\<^verbatim>\<open>Serial.print("...")\<close>\<close>
  | Serial_println string                \<comment> \<open>\<^verbatim>\<open>Serial.println("...")\<close>\<close>
  | Serial_println_char char             \<comment> \<open>\<^verbatim>\<open>Serial.println(cmd)\<close>\<close>
  | Serial_print_delay_ms                \<comment> \<open>\<^verbatim>\<open>Serial.print(delay_ms)\<close>\<close>
  | Serial_print_vol_knob_gain_dB nat    \<comment> \<open>\<^verbatim>\<open>Serial.print(vol_knob_gain_dB, digits)\<close>\<close>
  | Call_printGainSettings               \<comment> \<open>\<^verbatim>\<open>printGainSettings()\<close>\<close>
  | Call_togglePrintMemoryAndCPU         \<comment> \<open>\<^verbatim>\<open>togglePrintMemoryAndCPU()\<close>\<close>
  | Call_setVolKnobGain_dB 'f            \<comment> \<open>\<^verbatim>\<open>setVolKnobGain_dB(arg)\<close>\<close>
  | Call_setDelay_ms 'f                  \<comment> \<open>\<^verbatim>\<open>setDelay_ms(arg)\<close>\<close>

text \<open>The events that call a function of the main sketch.\<close>

fun is_call :: "'f event \<Rightarrow> bool" where
  "is_call Call_printGainSettings = True"
| "is_call Call_togglePrintMemoryAndCPU = True"
| "is_call (Call_setVolKnobGain_dB x) = True"
| "is_call (Call_setDelay_ms x) = True"
| "is_call e = False"

section \<open>The interpreter\<close>

subsection \<open>\<^verbatim>\<open>SerialManager::printHelp\<close> (lines 44 to 53)\<close>

definition printHelp :: "'f event list" where
  "printHelp =
     [Serial_println_empty,
      Serial_println ''SerialManager Help: Available Commands:'',
      Serial_println ''   h or ?: Print this help'',
      Serial_println ''   g      : Print the current gain and delay settings'',
      Serial_println ''   C      : Toggle printing of CPU and Memory usage'',
      Serial_println ''   k <dB> : Set digital gain in dB (example: k 10)'',
      Serial_println ''   d <ms> : Set delay time in ms (example: d 25)'',
      Serial_println_empty]"

subsection \<open>\<^verbatim>\<open>SerialManager::processLine_\<close> (lines 55 to 116)\<close>

text \<open>
  \<^verbatim>\<open>strtof\<close> belongs to the C library. It is a parameter of the model: a
  function from the string at \<^verbatim>\<open>line\<close> to the value returned and the number
  of characters consumed, \<^verbatim>\<open>endptr - line\<close>.

  Lines 67 to 74, the optional numeric argument: \<^verbatim>\<open>has_arg\<close> and
  \<^verbatim>\<open>arg\<close>. The argument \<open>line\<close> is the rest of the line after the command
  letter and the white space behind it.
\<close>

definition numeric_argument :: "(string \<Rightarrow> 'f \<times> nat) \<Rightarrow> string \<Rightarrow> bool \<times> 'f::zero" where
  "numeric_argument strtof line =
     (if line \<noteq> [] then (snd (strtof line) \<noteq> 0, fst (strtof line)) else (False, 0))"

text \<open>Lines 76 to 115, the \<^verbatim>\<open>switch (cmd)\<close>.\<close>

definition dispatch :: "char \<Rightarrow> bool \<Rightarrow> 'f \<Rightarrow> 'f event list" where
  "dispatch cmd has_arg arg =
     (if cmd = CHR ''h'' \<or> cmd = CHR ''?'' then printHelp
      else if cmd = CHR ''g'' \<or> cmd = CHR ''G'' then
        [Call_printGainSettings,
         Serial_print ''Delay = '', Serial_print_delay_ms, Serial_println '' ms'']
      else if cmd = CHR ''C'' \<or> cmd = CHR ''c'' then
        [Serial_println ''Command Received: toggle printing of memory and CPU usage.'',
         Call_togglePrintMemoryAndCPU]
      else if cmd = CHR ''k'' \<or> cmd = CHR ''K'' then
        (if has_arg then [Call_setVolKnobGain_dB arg]
         else [Serial_print ''Usage: k <dB>   (current = '',
               Serial_print_vol_knob_gain_dB 1,
               Serial_println '' dB)''])
      else if cmd = CHR ''d'' \<or> cmd = CHR ''D'' then
        (if has_arg then [Call_setDelay_ms arg]
         else [Serial_print ''Usage: d <ms>   (current = '',
               Serial_print_delay_ms,
               Serial_println '' ms)''])
      else
        [Serial_print ''Unknown command: '', Serial_println_char cmd,
         Serial_println ''Type 'h' for help.''])"

text \<open>
  The whole function. Its argument is the memory at \<^verbatim>\<open>line\<close>, of which the
  function reads the C string: nothing at or behind the first \<^verbatim>\<open>'\0'\<close>. The
  loop \<^verbatim>\<open>while (*line && isspace(...)) line++\<close> drops the longest prefix of
  white space, and \<^verbatim>\<open>strtof\<close> gets what is left of the string.
\<close>

definition processLine :: "(string \<Rightarrow> 'f \<times> nat) \<Rightarrow> string \<Rightarrow> ('f::zero) event list" where
  "processLine strtof line =
     (case dropWhile isspace (c_str line) of
        [] \<Rightarrow> []
      | cmd # line' \<Rightarrow>
          (let (has_arg, arg) = numeric_argument strtof (dropWhile isspace line')
           in dispatch cmd has_arg arg))"

subsection \<open>The line buffer (lines 30, 40 and 41)\<close>

type_synonym uint8_t = "8 word"

record SerialManager =
  cmd_buffer :: "char list"   \<comment> \<open>\<^verbatim>\<open>char cmd_buffer_[64]\<close>\<close>
  cmd_len :: uint8_t          \<comment> \<open>\<^verbatim>\<open>uint8_t cmd_len_\<close>\<close>

text \<open>
  The constructor writes \<^verbatim>\<open>cmd_buffer_[0]\<close> only: the other 63 bytes keep
  whatever the memory \<open>mem\<close> of the object held.
\<close>

definition SerialManager_ctor :: "char list \<Rightarrow> SerialManager" where
  "SerialManager_ctor mem = \<lparr>cmd_buffer = mem[0 := NUL], cmd_len = 0\<rparr>"

subsection \<open>\<^verbatim>\<open>SerialManager::respondToByte\<close> (lines 118 to 139)\<close>

text \<open>
  \<^verbatim>\<open>sizeof(cmd_buffer_) - 1\<close> is 63. A write \<open>buf[i := c]\<close> beyond the end of
  the list changes nothing, where the C program would write outside the array;
  \<open>buffer_ok\<close> below keeps every index inside.
\<close>

definition respondToByte ::
    "(string \<Rightarrow> 'f \<times> nat) \<Rightarrow> char \<Rightarrow> SerialManager \<Rightarrow> SerialManager \<times> ('f::zero) event list" where
  "respondToByte strtof c s =
     (if c = CR then (s, [])
      else if c = LF then
        (let buf = (cmd_buffer s)[unat (cmd_len s) := NUL]
         in (\<lparr>cmd_buffer = buf[0 := NUL], cmd_len = 0\<rparr>, processLine strtof buf))
      else if unat (cmd_len s) < 64 - 1 then
        (let buf = (cmd_buffer s)[unat (cmd_len s) := c];
             len = cmd_len s + 1
         in (\<lparr>cmd_buffer = buf[unat len := NUL], cmd_len = len\<rparr>, []))
      else
        (\<lparr>cmd_buffer = (cmd_buffer s)[0 := NUL], cmd_len = 0\<rparr>,
         [Serial_println ''Command too long. Buffer cleared.'']))"

text \<open>
  The caller's loop, one call of \<^verbatim>\<open>respondToByte\<close> for each received byte;
  the events of the calls follow each other.
\<close>

fun respondToBytes ::
    "(string \<Rightarrow> 'f \<times> nat) \<Rightarrow> char list \<Rightarrow> SerialManager \<Rightarrow> SerialManager \<times> ('f::zero) event list" where
  "respondToBytes strtof [] s = (s, [])"
| "respondToBytes strtof (c # cs) s =
     (let (s', es) = respondToByte strtof c s;
          (s'', es') = respondToBytes strtof cs s'
      in (s'', es @ es'))"

text \<open>
  The invariant of the line buffer: the array has its 64 bytes, the length is at
  most 63, and the byte at the length is the terminator.
\<close>

definition buffer_ok :: "SerialManager \<Rightarrow> bool" where
  "buffer_ok s \<longleftrightarrow>
     length (cmd_buffer s) = 64 \<and> unat (cmd_len s) \<le> 63 \<and> cmd_buffer s ! unat (cmd_len s) = NUL"

section \<open>The numeric parser\<close>

text \<open>
  Modelled from the spec: the pieces of the decimal numbers that \<^verbatim>\<open>strtof\<close>
  reads, which is the C library's and has no source in the repository: decimal
  digits and their value, the leading sign, and the exponent, which counts only
  when at least one digit follows the \<^verbatim>\<open>e\<close> and its sign.
\<close>

definition isdigit :: "char \<Rightarrow> bool" where
  "isdigit c \<longleftrightarrow> 48 \<le> (of_char c :: nat) \<and> (of_char c :: nat) \<le> 57"

definition digit_value :: "char \<Rightarrow> nat" where
  "digit_value c = of_char c - 48"

definition decimal :: "string \<Rightarrow> nat" where
  "decimal ds = foldl (\<lambda>a c. 10 * a + digit_value c) 0 ds"

definition sign_prefix :: "string \<Rightarrow> bool \<times> string" where
  "sign_prefix s =
     (case s of
        [] \<Rightarrow> (False, s)
      | c # t \<Rightarrow> if c = CHR ''-'' then (True, t) else if c = CHR ''+'' then (False, t) else (False, s))"

definition exponent_part :: "string \<Rightarrow> int \<times> nat" where
  "exponent_part s =
     (case s of
        [] \<Rightarrow> (0, 0)
      | c # t \<Rightarrow>
          if c = CHR ''e'' \<or> c = CHR ''E'' then
            (let (neg, u) = sign_prefix t;
                 ds = takeWhile isdigit u
             in if ds = [] then (0, 0)
                else (if neg then - int (decimal ds) else int (decimal ds),
                      1 + (length t - length u) + length ds))
          else (0, 0))"

definition pow10 :: "int \<Rightarrow> rat" where
  "pow10 e = (if 0 \<le> e then 10 ^ nat e else 1 / 10 ^ nat (- e))"

text \<open>
  Modelled from the spec: \<^verbatim>\<open>strtof\<close>, which \<^verbatim>\<open>processLine_\<close> calls at line 72,
  is the C library's and has no source in the repository. The specification
  says of it: a leading sign, digits, an optional decimal point and an exponent
  are accepted, and parsing stops at the first character that is not numeric.
  The value is the exact rational the consumed text denotes (the rounding to
  \<^verbatim>\<open>float\<close> is not modelled; small integers such as 10 and 25 are floats
  exactly), and the second component is the number of characters consumed,
  0 when there is no number to read. \<^verbatim>\<open>processLine_\<close> skips white space
  before the call, so none is skipped here. Wherever a property does not
  depend on the parser, it is stated for every \<open>strtof\<close>.
\<close>

definition strtof_spec :: "string \<Rightarrow> rat \<times> nat" where
  "strtof_spec s =
     (let (neg, s1) = sign_prefix s;
          ip = takeWhile isdigit s1;
          r1 = dropWhile isdigit s1;
          dot = (case r1 of [] \<Rightarrow> False | c # t \<Rightarrow> c = CHR ''.'');
          fp = (if dot then takeWhile isdigit (tl r1) else []);
          r2 = (if dot then dropWhile isdigit (tl r1) else r1)
      in if ip = [] \<and> fp = [] then (0, 0)
         else
           (let (ex, nexp) = exponent_part r2;
                m = of_nat (decimal (ip @ fp)) * pow10 (ex - int (length fp))
            in (if neg then - m else m,
                (length s - length s1) + length ip + (if dot then 1 else 0) + length fp + nexp)))"

section \<open>Running the events on a device\<close>

text \<open>
  The main sketch and \<^verbatim>\<open>Serial\<close> are outside \<^verbatim>\<open>SerialManager.h\<close>; they are
  parameters. A sketch over a device state \<open>'d\<close> gives the two globals the
  interpreter reads, the four functions it calls (each returns the new device
  state and the text it prints itself), and the text \<^verbatim>\<open>Serial.print\<close> writes
  for a float with a number of decimals.
\<close>

record ('d, 'f) sketch =
  vol_knob_gain_dB :: "'d \<Rightarrow> 'f"
  delay_ms :: "'d \<Rightarrow> 'f"
  setVolKnobGain_dB :: "'f \<Rightarrow> 'd \<Rightarrow> 'd \<times> string"
  printGainSettings :: "'d \<Rightarrow> 'd \<times> string"
  togglePrintMemoryAndCPU :: "'d \<Rightarrow> 'd \<times> string"
  setDelay_ms :: "'f \<Rightarrow> 'd \<Rightarrow> 'd \<times> string"
  Serial_float :: "'f \<Rightarrow> nat \<Rightarrow> string"

text \<open>
  One event on a device state and the text on the console so far. The calls
  on \<^verbatim>\<open>Serial\<close> only add to the console. As in the Arduino core's
  \<^verbatim>\<open>Print\<close> class, \<^verbatim>\<open>println\<close> ends the line with carriage return and
  line feed, and \<^verbatim>\<open>print\<close> of a float without a second argument prints 2
  decimals.
\<close>

abbreviation CRLF :: string where "CRLF \<equiv> [CR, LF]"

fun exec_event :: "('d, 'f) sketch \<Rightarrow> 'f event \<Rightarrow> 'd \<times> string \<Rightarrow> 'd \<times> string" where
  "exec_event sk Serial_println_empty (d, out) = (d, out @ CRLF)"
| "exec_event sk (Serial_print t) (d, out) = (d, out @ t)"
| "exec_event sk (Serial_println t) (d, out) = (d, out @ t @ CRLF)"
| "exec_event sk (Serial_println_char c) (d, out) = (d, out @ [c] @ CRLF)"
| "exec_event sk Serial_print_delay_ms (d, out) = (d, out @ Serial_float sk (delay_ms sk d) 2)"
| "exec_event sk (Serial_print_vol_knob_gain_dB n) (d, out) =
     (d, out @ Serial_float sk (vol_knob_gain_dB sk d) n)"
| "exec_event sk Call_printGainSettings (d, out) =
     (fst (printGainSettings sk d), out @ snd (printGainSettings sk d))"
| "exec_event sk Call_togglePrintMemoryAndCPU (d, out) =
     (fst (togglePrintMemoryAndCPU sk d), out @ snd (togglePrintMemoryAndCPU sk d))"
| "exec_event sk (Call_setVolKnobGain_dB x) (d, out) =
     (fst (setVolKnobGain_dB sk x d), out @ snd (setVolKnobGain_dB sk x d))"
| "exec_event sk (Call_setDelay_ms x) (d, out) =
     (fst (setDelay_ms sk x d), out @ snd (setDelay_ms sk x d))"

fun exec_events :: "('d, 'f) sketch \<Rightarrow> 'f event list \<Rightarrow> 'd \<times> string \<Rightarrow> 'd \<times> string" where
  "exec_events sk [] w = w"
| "exec_events sk (e # es) w = exec_events sk es (exec_event sk e w)"

text \<open>
  A small sketch to run the interpreter against: the device holds the gain, the
  delay and the flag; the setters store their argument and print nothing, the
  report of the gain is a fixed line, and floats print as a placeholder.
\<close>

record device =
  dev_gain_dB :: rat
  dev_delay_ms :: rat
  dev_print_cpu :: bool

definition demo_sketch :: "(device, rat) sketch" where
  "demo_sketch =
     \<lparr>vol_knob_gain_dB = dev_gain_dB,
      delay_ms = dev_delay_ms,
      setVolKnobGain_dB = (\<lambda>x d. (d\<lparr>dev_gain_dB := x\<rparr>, [])),
      printGainSettings = (\<lambda>d. (d, ''Gain settings'' @ CRLF)),
      togglePrintMemoryAndCPU = (\<lambda>d. (d\<lparr>dev_print_cpu := \<not> dev_print_cpu d\<rparr>, [])),
      setDelay_ms = (\<lambda>x d. (d\<lparr>dev_delay_ms := x\<rparr>, [])),
      Serial_float = (\<lambda>x n. if x = 0 then ''0'' else ''#'')\<rparr>"

definition demo_device :: device where
  "demo_device = \<lparr>dev_gain_dB = 0, dev_delay_ms = 0, dev_print_cpu = False\<rparr>"

section \<open>The line buffer stays a valid string\<close>

lemma unat_len_Suc: "unat (w :: uint8_t) < 63 \<Longrightarrow> unat (w + 1) = Suc (unat w)"
  by (simp add: unat_word_ariths)

lemma respondToByte_buffer_ok:
  assumes "buffer_ok s"
  shows "buffer_ok (fst (respondToByte strtof c s))"
  using assms
  by (auto simp: respondToByte_def buffer_ok_def Let_def unat_len_Suc)

lemma respondToBytes_buffer_ok:
  "buffer_ok s \<Longrightarrow> buffer_ok (fst (respondToBytes strtof cs s))"
proof (induction cs arbitrary: s)
  case Nil
  then show ?case by simp
next
  case (Cons c cs)
  from Cons.prems have "buffer_ok (fst (respondToByte strtof c s))"
    by (rule respondToByte_buffer_ok)
  then have "buffer_ok (fst (respondToBytes strtof cs (fst (respondToByte strtof c s))))"
    by (rule Cons.IH)
  then show ?case by (simp add: split_beta)
qed

lemma ctor_buffer_ok: "length mem = 64 \<Longrightarrow> buffer_ok (SerialManager_ctor mem)"
  by (simp add: SerialManager_ctor_def buffer_ok_def)

lemma takeWhile_stop: "\<not> P y \<Longrightarrow> takeWhile P (xs @ y # ys) = takeWhile P xs"
  by (induction xs) simp_all

text \<open>The string in the buffer ends at the first terminator, at the latest at the one
  the invariant keeps at the stored length.\<close>

lemma c_str_take:
  assumes "buf ! n = NUL" "n < length buf"
  shows "c_str buf = c_str (take n buf)"
proof -
  have "buf = take n buf @ NUL # drop (Suc n) buf"
    using assms by (metis id_take_nth_drop)
  then have "c_str buf = takeWhile (\<lambda>c. c \<noteq> NUL) (take n buf @ NUL # drop (Suc n) buf)"
    by (simp add: c_str_def)
  also have "\<dots> = takeWhile (\<lambda>c. c \<noteq> NUL) (take n buf)"
    by (simp add: takeWhile_stop)
  finally show ?thesis by (simp add: c_str_def)
qed

lemma c_str_length_le:
  assumes "buf ! n = NUL" "n < length buf"
  shows "length (c_str buf) \<le> n"
proof -
  have "length (c_str (take n buf)) \<le> length (take n buf)"
    unfolding c_str_def by (rule length_takeWhile_le)
  then show ?thesis using assms by (simp add: c_str_take [OF assms])
qed

text \<open>
  Claim C3. The invariant holds after construction, every call of
  \<^verbatim>\<open>respondToByte\<close> keeps it, whatever the byte, and so it holds after every
  sequence of calls: the buffer has its 64 bytes, the stored length is at most
  63, the byte at the stored length is the terminator, and the string in the
  buffer is no longer than the stored length.
\<close>

theorem buffer_invariant:
  assumes "length mem = 64"
  shows "buffer_ok (SerialManager_ctor mem) \<and>
         (\<forall>s c. buffer_ok s \<longrightarrow> buffer_ok (fst (respondToByte strtof c s))) \<and>
         (let s = fst (respondToBytes strtof cs (SerialManager_ctor mem))
          in length (cmd_buffer s) = 64 \<and> unat (cmd_len s) \<le> 63 \<and>
             cmd_buffer s ! unat (cmd_len s) = NUL \<and>
             length (c_str (cmd_buffer s)) \<le> unat (cmd_len s))"
proof -
  let ?s = "fst (respondToBytes strtof cs (SerialManager_ctor mem))"
  have ok0: "buffer_ok (SerialManager_ctor mem)" using assms by (rule ctor_buffer_ok)
  then have ok: "buffer_ok ?s" by (rule respondToBytes_buffer_ok)
  then have "length (c_str (cmd_buffer ?s)) \<le> unat (cmd_len ?s)"
    by (intro c_str_length_le) (simp_all add: buffer_ok_def)
  then have "let s = ?s in length (cmd_buffer s) = 64 \<and> unat (cmd_len s) \<le> 63 \<and>
             cmd_buffer s ! unat (cmd_len s) = NUL \<and>
             length (c_str (cmd_buffer s)) \<le> unat (cmd_len s)"
    using ok by (simp add: Let_def buffer_ok_def)
  moreover have "\<forall>s c. buffer_ok s \<longrightarrow> buffer_ok (fst (respondToByte strtof c s))"
    by (simp add: respondToByte_buffer_ok)
  ultimately show ?thesis using ok0 by blast
qed

theorem buffer_invariant_witness:
  "length (replicate 64 (CHR ''x'')) = 64 \<and>
   (let s = fst (respondToBytes strtof_spec ''k 10'' (SerialManager_ctor (replicate 64 (CHR ''x''))))
    in length (cmd_buffer s) = 64 \<and> unat (cmd_len s) \<le> 63 \<and>
       cmd_buffer s ! unat (cmd_len s) = NUL \<and>
       length (c_str (cmd_buffer s)) \<le> unat (cmd_len s))"
  using buffer_invariant [of "replicate 64 (CHR ''x'')" strtof_spec "''k 10''"]
  by simp

section \<open>Lines, and the overflow of the buffer\<close>

lemma respondToBytes_append:
  "respondToBytes strtof (xs @ ys) s =
     (fst (respondToBytes strtof ys (fst (respondToBytes strtof xs s))),
      snd (respondToBytes strtof xs s) @ snd (respondToBytes strtof ys (fst (respondToBytes strtof xs s))))"
  by (induction xs arbitrary: s) (simp_all add: split_beta)

lemma respondToByte_store:
  assumes "c \<noteq> CR" "c \<noteq> LF" "unat (cmd_len s) < 63"
  shows "respondToByte strtof c s =
           (\<lparr>cmd_buffer = (cmd_buffer s)[unat (cmd_len s) := c, Suc (unat (cmd_len s)) := NUL],
             cmd_len = cmd_len s + 1\<rparr>, [])"
  using assms by (simp add: respondToByte_def Let_def unat_len_Suc)

lemma accumulate:
  assumes "buffer_ok s" "LF \<notin> set cs" "CR \<notin> set cs" "unat (cmd_len s) + length cs \<le> 63"
  shows "snd (respondToBytes strtof cs s) = [] \<and>
         unat (cmd_len (fst (respondToBytes strtof cs s))) = unat (cmd_len s) + length cs \<and>
         cmd_buffer (fst (respondToBytes strtof cs s)) =
           take (unat (cmd_len s)) (cmd_buffer s) @ cs @
           NUL # drop (Suc (unat (cmd_len s) + length cs)) (cmd_buffer s)"
  using assms
proof (induction cs arbitrary: s)
  case Nil
  then have "cmd_buffer s ! unat (cmd_len s) = NUL" "unat (cmd_len s) < length (cmd_buffer s)"
    by (simp_all add: buffer_ok_def)
  then show ?case using id_take_nth_drop [of "unat (cmd_len s)" "cmd_buffer s"] by simp
next
  case (Cons c cs)
  let ?k = "unat (cmd_len s)"
  let ?s1 = "\<lparr>cmd_buffer = (cmd_buffer s)[?k := c, Suc ?k := NUL], cmd_len = cmd_len s + 1\<rparr>"
  from Cons.prems have k: "?k < 63" and c: "c \<noteq> CR" "c \<noteq> LF" by auto
  from Cons.prems have len: "length (cmd_buffer s) = 64" by (simp add: buffer_ok_def)
  have step: "respondToByte strtof c s = (?s1, [])"
    using c k by (rule respondToByte_store)
  have k1: "unat (cmd_len ?s1) = Suc ?k" using k by (simp add: unat_len_Suc)
  have ok1: "buffer_ok ?s1"
    using respondToByte_buffer_ok [OF Cons.prems(1), of strtof c] step by simp
  have "snd (respondToBytes strtof cs ?s1) = [] \<and>
        unat (cmd_len (fst (respondToBytes strtof cs ?s1))) = unat (cmd_len ?s1) + length cs \<and>
        cmd_buffer (fst (respondToBytes strtof cs ?s1)) =
          take (unat (cmd_len ?s1)) (cmd_buffer ?s1) @ cs @
          NUL # drop (Suc (unat (cmd_len ?s1) + length cs)) (cmd_buffer ?s1)"
    using Cons.prems k1 by (intro Cons.IH ok1) auto
  moreover have "take (Suc ?k) (cmd_buffer ?s1) = take ?k (cmd_buffer s) @ [c]"
    using k len by (simp add: take_Suc_conv_app_nth)
  moreover have "drop (Suc (Suc ?k + length cs)) (cmd_buffer ?s1) =
                 drop (Suc (?k + length (c # cs))) (cmd_buffer s)"
    by simp
  ultimately show ?case
    using step k1 by (simp add: split_beta)
qed

lemma respondToByte_LF:
  "respondToByte strtof LF s =
     (\<lparr>cmd_buffer = (cmd_buffer s)[unat (cmd_len s) := NUL, 0 := NUL], cmd_len = 0\<rparr>,
      processLine strtof ((cmd_buffer s)[unat (cmd_len s) := NUL]))"
  by (simp add: respondToByte_def Let_def)

lemma c_str_c_str: "c_str (c_str buf) = c_str buf"
  by (simp add: c_str_def)

lemma processLine_same_string:
  "c_str line = c_str line' \<Longrightarrow> processLine strtof line = processLine strtof line'"
  by (simp add: processLine_def)

lemma respondToByte_full:
  assumes "c \<noteq> CR" "c \<noteq> LF" "unat (cmd_len s) = 63"
  shows "respondToByte strtof c s =
           (\<lparr>cmd_buffer = (cmd_buffer s)[0 := NUL], cmd_len = 0\<rparr>,
            [Serial_println ''Command too long. Buffer cleared.''])"
  using assms by (simp add: respondToByte_def)

text \<open>
  A complete line fed to an empty buffer: the bytes (neither newline nor carriage
  return, at most 63 of them) are stored, and the newline hands the buffer to
  \<^verbatim>\<open>processLine_\<close> and empties it.
\<close>

lemma line_from_empty:
  assumes "buffer_ok s" "cmd_len s = 0" "LF \<notin> set cs" "CR \<notin> set cs" "length cs \<le> 63"
  shows "respondToBytes strtof (cs @ [LF]) s =
           (\<lparr>cmd_buffer = (cs @ NUL # drop (Suc (length cs)) (cmd_buffer s))[0 := NUL], cmd_len = 0\<rparr>,
            processLine strtof cs)"
proof -
  let ?s1 = "fst (respondToBytes strtof cs s)"
  have acc: "snd (respondToBytes strtof cs s) = []"
    "unat (cmd_len ?s1) = length cs"
    "cmd_buffer ?s1 = cs @ NUL # drop (Suc (length cs)) (cmd_buffer s)"
    using accumulate [of s cs strtof] assms by simp_all
  have "(cmd_buffer ?s1)[unat (cmd_len ?s1) := NUL] = cmd_buffer ?s1"
    using acc by (simp add: list_update_append)
  moreover have "c_str (cmd_buffer ?s1) = c_str cs"
    using acc by (simp add: c_str_def takeWhile_stop)
  then have "processLine strtof (cmd_buffer ?s1) = processLine strtof cs"
    by (rule processLine_same_string)
  ultimately show ?thesis
    using acc by (simp add: respondToBytes_append respondToByte_LF)
qed

lemma unat_63: "unat (w :: uint8_t) = 63 \<Longrightarrow> w = 63"
  by (simp add: word_unat_eq_iff)

lemma c_str_reset: "buf \<noteq> [] \<Longrightarrow> c_str (buf[0 := NUL]) = []"
  by (cases buf) (simp_all add: c_str_def)

lemma c_str_id: "NUL \<notin> set cs \<Longrightarrow> c_str cs = cs"
  by (auto simp: c_str_def takeWhile_eq_all_conv)

text \<open>Every empty buffer that satisfies the invariant is one the constructor makes.\<close>

lemma empty_buffer_is_ctor:
  "buffer_ok s \<Longrightarrow> cmd_len s = 0 \<Longrightarrow> s = SerialManager_ctor (cmd_buffer s)"
proof -
  assume "buffer_ok s" "cmd_len s = 0"
  then have "(cmd_buffer s)[0 := NUL] = cmd_buffer s"
    by (metis buffer_ok_def list_update_id unat_0)
  with \<open>cmd_len s = 0\<close> show ?thesis by (simp add: SerialManager_ctor_def)
qed

lemma reset_buffer_ok: "length buf = 64 \<Longrightarrow> buffer_ok \<lparr>cmd_buffer = buf[0 := NUL], cmd_len = 0\<rparr>"
  by (simp add: buffer_ok_def)

lemma overflow_notice_not_dispatch:
  "Serial_println ''Command too long. Buffer cleared.'' \<notin> set (dispatch cmd has_arg arg)"
  by (simp add: dispatch_def printHelp_def)

lemma overflow_notice_not_processLine:
  "Serial_println ''Command too long. Buffer cleared.'' \<notin> set (processLine strtof line)"
  by (simp add: processLine_def overflow_notice_not_dispatch split: list.split prod.split)

lemma fill_buffer:
  assumes "length mem = 64" "length cs = 63" "LF \<notin> set cs" "CR \<notin> set cs"
  shows "respondToBytes strtof cs (SerialManager_ctor mem) = (\<lparr>cmd_buffer = cs @ [NUL], cmd_len = 63\<rparr>, [])"
proof -
  let ?init = "SerialManager_ctor mem"
  let ?s = "fst (respondToBytes strtof cs ?init)"
  have ok0: "buffer_ok ?init" using assms(1) by (rule ctor_buffer_ok)
  have len0: "unat (cmd_len ?init) = 0" "length (cmd_buffer ?init) = 64"
    using assms(1) by (simp_all add: SerialManager_ctor_def)
  have acc: "snd (respondToBytes strtof cs ?init) = []" "unat (cmd_len ?s) = 63"
      "cmd_buffer ?s = cs @ [NUL]"
    using accumulate [OF ok0 assms(3,4), of strtof] assms(2) len0 by simp_all
  from acc(2) have "cmd_len ?s = 63" by (rule unat_63)
  with acc(3) have "?s = \<lparr>cmd_buffer = cs @ [NUL], cmd_len = 63\<rparr>" by simp
  with acc(1) show ?thesis by (simp add: prod_eq_iff)
qed

text \<open>
  Claim C2. From an empty buffer (the one the constructor leaves; by
  \<open>empty_buffer_is_ctor\<close> there is no other), 63 bytes that are neither
  newline nor carriage return are all stored, without output. A 64th such byte
  then overflows: the only output is the notice, the length is 0 again, the
  buffer holds the empty string, and the 64th byte is written nowhere. A
  newline instead of the 64th byte does not overflow: the line parser is called
  on the buffer with all 63 bytes and the terminator behind them (of which it
  reads, as of any C string, the bytes before the first \<^verbatim>\<open>'\0'\<close>), and its
  output never holds the notice.
\<close>

theorem overflow_on_64th_character:
  assumes "length mem = 64" "length cs = 63" "LF \<notin> set cs" "CR \<notin> set cs" "c \<noteq> LF" "c \<noteq> CR"
  shows "respondToBytes strtof cs (SerialManager_ctor mem) =
           (\<lparr>cmd_buffer = cs @ [NUL], cmd_len = 63\<rparr>, []) \<and>
         respondToBytes strtof (cs @ [c]) (SerialManager_ctor mem) =
           (\<lparr>cmd_buffer = (cs @ [NUL])[0 := NUL], cmd_len = 0\<rparr>,
            [Serial_println ''Command too long. Buffer cleared.'']) \<and>
         c_str ((cs @ [NUL])[0 := NUL]) = [] \<and>
         respondToBytes strtof (cs @ [LF]) (SerialManager_ctor mem) =
           (\<lparr>cmd_buffer = (cs @ [NUL])[0 := NUL], cmd_len = 0\<rparr>, processLine strtof cs) \<and>
         processLine strtof (cs @ [NUL]) = processLine strtof cs \<and>
         Serial_println ''Command too long. Buffer cleared.'' \<notin> set (processLine strtof cs)"
proof -
  let ?init = "SerialManager_ctor mem"
  have full: "respondToBytes strtof cs ?init = (\<lparr>cmd_buffer = cs @ [NUL], cmd_len = 63\<rparr>, [])"
    using assms(1-4) by (rule fill_buffer)
  have over: "respondToBytes strtof (cs @ [c]) ?init =
           (\<lparr>cmd_buffer = (cs @ [NUL])[0 := NUL], cmd_len = 0\<rparr>,
            [Serial_println ''Command too long. Buffer cleared.''])"
    using assms(5,6) by (simp add: respondToBytes_append full respondToByte_full)
  have terminated: "processLine strtof (cs @ [NUL]) = processLine strtof cs"
    by (rule processLine_same_string) (simp add: c_str_def takeWhile_stop)
  have line: "respondToBytes strtof (cs @ [LF]) ?init =
           (\<lparr>cmd_buffer = (cs @ [NUL])[0 := NUL], cmd_len = 0\<rparr>, processLine strtof cs)"
    using assms(2)
    by (simp add: respondToBytes_append full respondToByte_LF list_update_append terminated)
  have empty: "c_str ((cs @ [NUL])[0 := NUL]) = []"
    by (rule c_str_reset) simp
  show ?thesis
    using full over line empty terminated by (simp add: overflow_notice_not_processLine)
qed

theorem overflow_on_64th_character_witness:
  "length (replicate 64 NUL) = 64 \<and> length (replicate 63 (CHR ''a'')) = 63 \<and>
   LF \<notin> set (replicate 63 (CHR ''a'')) \<and> CR \<notin> set (replicate 63 (CHR ''a'')) \<and>
   CHR ''b'' \<noteq> LF \<and> CHR ''b'' \<noteq> CR \<and>
   respondToBytes strtof_spec (replicate 63 (CHR ''a'') @ [CHR ''b'']) (SerialManager_ctor (replicate 64 NUL)) =
      (\<lparr>cmd_buffer = (replicate 63 (CHR ''a'') @ [NUL])[0 := NUL], cmd_len = 0\<rparr>,
       [Serial_println ''Command too long. Buffer cleared.'']) \<and>
   respondToBytes strtof_spec (replicate 63 (CHR ''a'') @ [LF]) (SerialManager_ctor (replicate 64 NUL)) =
      (\<lparr>cmd_buffer = (replicate 63 (CHR ''a'') @ [NUL])[0 := NUL], cmd_len = 0\<rparr>,
       processLine strtof_spec (replicate 63 (CHR ''a'')))"
  using overflow_on_64th_character [of "replicate 64 NUL" "replicate 63 (CHR ''a'')" "CHR ''b''" strtof_spec]
  by simp

section \<open>Carriage returns\<close>

lemma respondToByte_CR: "respondToByte strtof CR s = (s, [])"
  by (simp add: respondToByte_def)

lemma respondToBytes_filter_CR:
  "respondToBytes strtof cs s = respondToBytes strtof (filter (\<lambda>c. c \<noteq> CR) cs) s"
  by (induction cs arbitrary: s) (simp_all add: respondToByte_CR)

lemma respondToByte_no_CR:
  assumes "buffer_ok s" "CR \<notin> set (take (unat (cmd_len s)) (cmd_buffer s))"
  shows "CR \<notin> set (take (unat (cmd_len (fst (respondToByte strtof c s))))
                      (cmd_buffer (fst (respondToByte strtof c s))))"
  using assms
  by (auto simp: respondToByte_def buffer_ok_def Let_def unat_len_Suc take_Suc_conv_app_nth
      dest: in_set_takeD)

lemma respondToBytes_no_CR:
  assumes "buffer_ok s" "CR \<notin> set (take (unat (cmd_len s)) (cmd_buffer s))"
  shows "CR \<notin> set (take (unat (cmd_len (fst (respondToBytes strtof cs s))))
                      (cmd_buffer (fst (respondToBytes strtof cs s))))"
  using assms
proof (induction cs arbitrary: s)
  case Nil
  then show ?case by simp
next
  case (Cons c cs)
  let ?s1 = "fst (respondToByte strtof c s)"
  have "buffer_ok ?s1" using Cons.prems(1) by (rule respondToByte_buffer_ok)
  moreover have "CR \<notin> set (take (unat (cmd_len ?s1)) (cmd_buffer ?s1))"
    using Cons.prems by (rule respondToByte_no_CR)
  ultimately have "CR \<notin> set (take (unat (cmd_len (fst (respondToBytes strtof cs ?s1))))
                      (cmd_buffer (fst (respondToBytes strtof cs ?s1))))"
    by (rule Cons.IH)
  then show ?case by (simp add: split_beta)
qed

lemma line_with_CR_from_empty:
  assumes "buffer_ok s" "cmd_len s = 0" "LF \<notin> set cs" "length (filter (\<lambda>c. c \<noteq> CR) cs) \<le> 63"
  shows "snd (respondToBytes strtof (cs @ [LF]) s) = processLine strtof (filter (\<lambda>c. c \<noteq> CR) cs) \<and>
         cmd_len (fst (respondToBytes strtof (cs @ [LF]) s)) = 0 \<and>
         c_str (cmd_buffer (fst (respondToBytes strtof (cs @ [LF]) s))) = []"
proof -
  let ?f = "filter (\<lambda>c. c \<noteq> CR) cs"
  have "respondToBytes strtof (cs @ [LF]) s = respondToBytes strtof (?f @ [LF]) s"
    using respondToBytes_filter_CR [of strtof "cs @ [LF]" s] by simp
  moreover have "respondToBytes strtof (?f @ [LF]) s =
           (\<lparr>cmd_buffer = (?f @ NUL # drop (Suc (length ?f)) (cmd_buffer s))[0 := NUL], cmd_len = 0\<rparr>,
            processLine strtof ?f)"
    using assms by (intro line_from_empty) simp_all
  ultimately show ?thesis by (simp add: c_str_reset)
qed

text \<open>
  Claim C7. A carriage return changes neither the buffer nor the length and
  prints nothing. So a run on any input is the run on the input without its
  carriage returns; no carriage return is ever among the stored bytes of the
  line; and a line overflows or not by the number of its other bytes alone: with
  at most 63 of them it is dispatched, whatever the number of carriage returns.
\<close>

theorem carriage_return_is_ignored:
  "respondToByte strtof CR s = (s, []) \<and>
   respondToBytes strtof cs s = respondToBytes strtof (filter (\<lambda>c. c \<noteq> CR) cs) s \<and>
   (length mem = 64 \<longrightarrow>
      CR \<notin> set (take (unat (cmd_len (fst (respondToBytes strtof cs (SerialManager_ctor mem)))))
                     (cmd_buffer (fst (respondToBytes strtof cs (SerialManager_ctor mem))))) \<and>
      CR \<notin> set (c_str (cmd_buffer (fst (respondToBytes strtof cs (SerialManager_ctor mem)))))) \<and>
   (length mem = 64 \<and> LF \<notin> set cs \<and> length (filter (\<lambda>c. c \<noteq> CR) cs) \<le> 63 \<longrightarrow>
      snd (respondToBytes strtof (cs @ [LF]) (SerialManager_ctor mem)) =
        processLine strtof (filter (\<lambda>c. c \<noteq> CR) cs))"
proof -
  let ?init = "SerialManager_ctor mem"
  let ?after = "fst (respondToBytes strtof cs ?init)"
  have a: "respondToByte strtof CR s = (s, [])" by (rule respondToByte_CR)
  have b: "respondToBytes strtof cs s = respondToBytes strtof (filter (\<lambda>c. c \<noteq> CR) cs) s"
    by (rule respondToBytes_filter_CR)
  have c: "CR \<notin> set (take (unat (cmd_len ?after)) (cmd_buffer ?after)) \<and>
           CR \<notin> set (c_str (cmd_buffer ?after))" if mem: "length mem = 64"
  proof -
    have ok0: "buffer_ok ?init" using mem by (rule ctor_buffer_ok)
    then have ok: "buffer_ok ?after" by (rule respondToBytes_buffer_ok)
    have "CR \<notin> set (take (unat (cmd_len ?init)) (cmd_buffer ?init))"
      by (simp add: SerialManager_ctor_def)
    with ok0 have 1: "CR \<notin> set (take (unat (cmd_len ?after)) (cmd_buffer ?after))"
      by (rule respondToBytes_no_CR)
    have "c_str (cmd_buffer ?after) = c_str (take (unat (cmd_len ?after)) (cmd_buffer ?after))"
      using ok by (intro c_str_take) (simp_all add: buffer_ok_def)
    moreover have "set (c_str (take (unat (cmd_len ?after)) (cmd_buffer ?after))) \<subseteq>
                   set (take (unat (cmd_len ?after)) (cmd_buffer ?after))"
      by (auto simp: c_str_def dest: set_takeWhileD)
    ultimately show ?thesis using 1 by auto
  qed
  have d: "snd (respondToBytes strtof (cs @ [LF]) ?init) =
             processLine strtof (filter (\<lambda>c. c \<noteq> CR) cs)"
    if "length mem = 64" "LF \<notin> set cs" "length (filter (\<lambda>c. c \<noteq> CR) cs) \<le> 63"
    using line_with_CR_from_empty [of ?init cs strtof] that
    by (simp add: ctor_buffer_ok) (simp add: SerialManager_ctor_def)
  from a b c d show ?thesis by blast
qed

theorem carriage_return_is_ignored_witness:
  "length (replicate 64 (CHR ''x'')) = 64 \<and> LF \<notin> set (''k'' @ replicate 100 CR @ '' 10'') \<and>
   length (filter (\<lambda>c. c \<noteq> CR) (''k'' @ replicate 100 CR @ '' 10'')) \<le> 63 \<and>
   snd (respondToBytes strtof_spec ((''k'' @ replicate 100 CR @ '' 10'') @ [LF])
          (SerialManager_ctor (replicate 64 (CHR ''x'')))) = [Call_setVolKnobGain_dB 10]"
proof -
  have "processLine strtof_spec ''k 10'' = [Call_setVolKnobGain_dB 10]"
    by code_simp
  then show ?thesis
    using carriage_return_is_ignored
      [of strtof_spec "SerialManager_ctor (replicate 64 (CHR ''x''))" "''k'' @ replicate 100 CR @ '' 10''" "replicate 64 (CHR ''x'')"]
    by simp
qed

section \<open>Oversized lines\<close>

text \<open>
  A line of any length fed to an empty buffer, carriage returns apart: every
  64th byte overflows, and the newline dispatches what came after the last
  overflow.
\<close>

lemma line_in_chunks:
  assumes "buffer_ok s" "cmd_len s = 0" "LF \<notin> set cs" "CR \<notin> set cs"
  shows "snd (respondToBytes strtof (cs @ [LF]) s) =
           replicate (length cs div 64) (Serial_println ''Command too long. Buffer cleared.'') @
           processLine strtof (drop (64 * (length cs div 64)) cs) \<and>
         cmd_len (fst (respondToBytes strtof (cs @ [LF]) s)) = 0"
  using assms
proof (induction cs arbitrary: s rule: length_induct)
  case (1 cs)
  show ?case
  proof (cases "length cs \<le> 63")
    case True
    then have "length cs div 64 = 0" by simp
    moreover have "respondToBytes strtof (cs @ [LF]) s =
           (\<lparr>cmd_buffer = (cs @ NUL # drop (Suc (length cs)) (cmd_buffer s))[0 := NUL], cmd_len = 0\<rparr>,
            processLine strtof cs)"
      using "1.prems" True by (intro line_from_empty)
    ultimately show ?thesis by simp
  next
    case False
    define h where "h = take 63 cs"
    define c where "c = cs ! 63"
    define t where "t = drop 64 cs"
    have "63 < length cs" using False by simp
    then have "cs = take 63 cs @ cs ! 63 # drop (Suc 63) cs" by (rule id_take_nth_drop)
    moreover have "Suc 63 = (64::nat)" by simp
    ultimately have split: "cs = h @ c # t"
      unfolding h_def c_def t_def by (simp only:)
    have lh: "length h = 63" using False by (simp add: h_def)
    have lt: "length t = length cs - 64" by (simp add: t_def)
    have c: "c \<noteq> CR" "c \<noteq> LF" and h: "LF \<notin> set h" "CR \<notin> set h"
      and t: "LF \<notin> set t" "CR \<notin> set t"
      using "1.prems"(3,4) split by auto
    let ?s1 = "fst (respondToBytes strtof h s)"
    have acc: "snd (respondToBytes strtof h s) = []" "unat (cmd_len ?s1) = 63"
      using accumulate [OF "1.prems"(1) h, of strtof] "1.prems"(2) lh by simp_all
    have ok1: "buffer_ok ?s1" using "1.prems"(1) by (rule respondToBytes_buffer_ok)
    let ?s2 = "\<lparr>cmd_buffer = (cmd_buffer ?s1)[0 := NUL], cmd_len = 0\<rparr>"
    have over: "respondToByte strtof c ?s1 =
                  (?s2, [Serial_println ''Command too long. Buffer cleared.''])"
      using c acc(2) by (rule respondToByte_full)
    have ok2: "buffer_ok ?s2" using ok1 by (intro reset_buffer_ok) (simp add: buffer_ok_def)
    have "length t < length cs" using False lt by simp
    then have ih: "snd (respondToBytes strtof (t @ [LF]) ?s2) =
           replicate (length t div 64) (Serial_println ''Command too long. Buffer cleared.'') @
           processLine strtof (drop (64 * (length t div 64)) t) \<and>
         cmd_len (fst (respondToBytes strtof (t @ [LF]) ?s2)) = 0"
      using "1.IH" ok2 t by simp
    have "(64::nat) \<le> length cs" using False by simp
    then have "length cs div 64 = Suc ((length cs - 64) div 64)"
      by (intro le_div_geq) simp_all
    then have d: "length cs div 64 = Suc (length t div 64)"
      by (simp only: lt)
    have "drop (64 * (length t div 64)) t = drop (64 * (length t div 64) + 64) cs"
      unfolding t_def by (rule drop_drop)
    moreover have "64 * (length cs div 64) = 64 * (length t div 64) + 64"
      unfolding d by simp
    ultimately have dr: "drop (64 * (length cs div 64)) cs = drop (64 * (length t div 64)) t"
      by (simp only:)
    have run: "respondToBytes strtof (cs @ [LF]) s =
            (fst (respondToBytes strtof (t @ [LF]) ?s2),
             Serial_println ''Command too long. Buffer cleared.'' #
             snd (respondToBytes strtof (t @ [LF]) ?s2))"
      unfolding split
      by (simp add: respondToBytes_append [of strtof h] acc(1) over split_beta)
    show ?thesis
      unfolding run dr using ih d by simp
  qed
qed


text \<open>
  Claim C10, as stated, fails when 64 bytes or more follow the reset before the
  newline. After 63 bytes and a 64th, the tail \<^verbatim>\<open>k 10\<close> with 60 spaces behind
  it overflows again at its own 64th byte: the output is two notices and no
  call, although the same tail given to \<^verbatim>\<open>processLine_\<close> sets the gain.
\<close>

theorem long_tail_is_not_dispatched:
  "snd (respondToBytes strtof_spec
          (replicate 63 (CHR ''a'') @ CHR ''b'' # (''k 10'' @ replicate 60 (CHR '' '')) @ [LF])
          (SerialManager_ctor (replicate 64 NUL))) =
     [Serial_println ''Command too long. Buffer cleared.'',
      Serial_println ''Command too long. Buffer cleared.''] \<and>
   processLine strtof_spec (''k 10'' @ replicate 60 (CHR '' '')) = [Call_setVolKnobGain_dB 10] \<and>
   snd (respondToBytes strtof_spec
          (replicate 63 (CHR ''a'') @ CHR ''b'' # (''k 10'' @ replicate 60 (CHR '' '')) @ [LF])
          (SerialManager_ctor (replicate 64 NUL))) \<noteq>
     Serial_println ''Command too long. Buffer cleared.'' #
     processLine strtof_spec (''k 10'' @ replicate 60 (CHR '' ''))"
  by code_simp

text \<open>
  Claim C10, amended. After the overflow at the 64th byte of an oversized line
  (carriage returns are not counted), the bytes that follow are stored in the
  emptied buffer. If at most 63 of them come before the next newline, the
  newline dispatches them as a line of their own: the output is the notice
  followed by the output of \<^verbatim>\<open>processLine_\<close> on that tail. A longer tail
  overflows again at each 64th of its bytes, and the newline dispatches what
  came after the last overflow.
\<close>

theorem tail_of_oversized_line_is_dispatched:
  assumes "length mem = 64" "LF \<notin> set cs" "length (filter (\<lambda>x. x \<noteq> CR) cs) = 63"
    and "c \<noteq> LF" "c \<noteq> CR" "LF \<notin> set rest"
  shows "(length (filter (\<lambda>x. x \<noteq> CR) rest) \<le> 63 \<longrightarrow>
            snd (respondToBytes strtof (cs @ c # rest @ [LF]) (SerialManager_ctor mem)) =
              Serial_println ''Command too long. Buffer cleared.'' #
              processLine strtof (filter (\<lambda>x. x \<noteq> CR) rest)) \<and>
         snd (respondToBytes strtof (cs @ c # rest @ [LF]) (SerialManager_ctor mem)) =
           replicate (Suc (length (filter (\<lambda>x. x \<noteq> CR) rest) div 64))
             (Serial_println ''Command too long. Buffer cleared.'') @
           processLine strtof
             (drop (64 * (length (filter (\<lambda>x. x \<noteq> CR) rest) div 64))
                (filter (\<lambda>x. x \<noteq> CR) rest)) \<and>
         cmd_len (fst (respondToBytes strtof (cs @ c # rest @ [LF]) (SerialManager_ctor mem))) = 0"
proof -
  let ?init = "SerialManager_ctor mem"
  define h where "h = filter (\<lambda>x. x \<noteq> CR) cs"
  define t where "t = filter (\<lambda>x. x \<noteq> CR) rest"
  let ?s1 = "\<lparr>cmd_buffer = (h @ [NUL])[0 := NUL], cmd_len = 0\<rparr>"
  have h: "length h = 63" "LF \<notin> set h" "CR \<notin> set h"
    using assms(2,3) by (simp_all add: h_def)
  have t: "LF \<notin> set t" "CR \<notin> set t"
    using assms(6) by (simp_all add: t_def)
  have "filter (\<lambda>x. x \<noteq> CR) (cs @ c # rest @ [LF]) = h @ c # t @ [LF]"
    using assms(5) by (simp add: h_def t_def)
  then have filtered: "respondToBytes strtof (cs @ c # rest @ [LF]) ?init =
                       respondToBytes strtof (h @ c # t @ [LF]) ?init"
    using respondToBytes_filter_CR [of strtof "cs @ c # rest @ [LF]" ?init] by (simp only:)
  have full: "respondToBytes strtof h ?init = (\<lparr>cmd_buffer = h @ [NUL], cmd_len = 63\<rparr>, [])"
    using assms(1) h by (rule fill_buffer)
  have over: "respondToByte strtof c \<lparr>cmd_buffer = h @ [NUL], cmd_len = 63\<rparr> =
                (?s1, [Serial_println ''Command too long. Buffer cleared.''])"
    using assms(4,5) by (simp add: respondToByte_full)
  have ok1: "buffer_ok ?s1" using h(1) by (intro reset_buffer_ok) simp
  have tail: "snd (respondToBytes strtof (t @ [LF]) ?s1) =
           replicate (length t div 64) (Serial_println ''Command too long. Buffer cleared.'') @
           processLine strtof (drop (64 * (length t div 64)) t) \<and>
         cmd_len (fst (respondToBytes strtof (t @ [LF]) ?s1)) = 0"
    using ok1 _ t by (rule line_in_chunks) simp
  have run: "respondToBytes strtof (h @ c # t @ [LF]) ?init =
          (fst (respondToBytes strtof (t @ [LF]) ?s1),
           Serial_println ''Command too long. Buffer cleared.'' # snd (respondToBytes strtof (t @ [LF]) ?s1))"
    by (simp add: respondToBytes_append [of strtof h] full over split_beta)
  have general: "snd (respondToBytes strtof (cs @ c # rest @ [LF]) ?init) =
           replicate (Suc (length t div 64)) (Serial_println ''Command too long. Buffer cleared.'') @
           processLine strtof (drop (64 * (length t div 64)) t)"
    and len: "cmd_len (fst (respondToBytes strtof (cs @ c # rest @ [LF]) ?init)) = 0"
    unfolding filtered run using tail by simp_all
  have short: "snd (respondToBytes strtof (cs @ c # rest @ [LF]) ?init) =
              Serial_println ''Command too long. Buffer cleared.'' # processLine strtof t"
    if "length t \<le> 63"
  proof -
    from that have "length t div 64 = 0" by simp
    then show ?thesis unfolding general by simp
  qed
  from short general len show ?thesis unfolding t_def by blast
qed

theorem tail_of_oversized_line_is_dispatched_witness:
  "length (replicate 64 NUL) = 64 \<and> LF \<notin> set (replicate 63 (CHR ''a'')) \<and>
   length (filter (\<lambda>x. x \<noteq> CR) (replicate 63 (CHR ''a''))) = 63 \<and>
   CHR ''b'' \<noteq> LF \<and> CHR ''b'' \<noteq> CR \<and> LF \<notin> set (CR # ''k 10'') \<and>
   length (filter (\<lambda>x. x \<noteq> CR) (CR # ''k 10'')) \<le> 63 \<and>
   snd (respondToBytes strtof_spec (replicate 63 (CHR ''a'') @ CHR ''b'' # (CR # ''k 10'') @ [LF])
         (SerialManager_ctor (replicate 64 NUL))) =
     [Serial_println ''Command too long. Buffer cleared.'', Call_setVolKnobGain_dB 10]"
proof -
  have "processLine strtof_spec ''k 10'' = [Call_setVolKnobGain_dB 10]"
    by code_simp
  then show ?thesis
    using tail_of_oversized_line_is_dispatched
      [of "replicate 64 NUL" "replicate 63 (CHR ''a'')" "CHR ''b''" "CR # ''k 10''" strtof_spec,
       THEN conjunct1]
    by simp
qed

section \<open>Blank lines\<close>

lemma set_c_str: "set (c_str line) \<subseteq> set line"
  by (auto simp: c_str_def dest: set_takeWhileD)

lemma processLine_blank: "\<forall>c\<in>set line. isspace c \<Longrightarrow> processLine strtof line = []"
proof -
  assume "\<forall>c\<in>set line. isspace c"
  then have "\<forall>c\<in>set (c_str line). isspace c" using set_c_str [of line] by blast
  then have "dropWhile isspace (c_str line) = []" by simp
  then show ?thesis unfolding processLine_def by (simp only: list.case)
qed

text \<open>
  Claim C8. A line that is empty or all white space makes \<^verbatim>\<open>processLine_\<close>
  do nothing: no output and no call of the sketch, so the device state and the
  console are as before. Fed byte by byte and ended by a newline, such a line
  leaves the buffer empty, as every line does.
\<close>

theorem blank_line_is_ignored:
  assumes "\<forall>c\<in>set line. isspace c"
  shows "processLine strtof line = [] \<and>
         filter is_call (processLine strtof line) = [] \<and>
         exec_events sk (processLine strtof line) (d, out) = (d, out) \<and>
         (length mem = 64 \<and> LF \<notin> set line \<and> length (filter (\<lambda>c. c \<noteq> CR) line) \<le> 63 \<longrightarrow>
            snd (respondToBytes strtof (line @ [LF]) (SerialManager_ctor mem)) = [] \<and>
            cmd_len (fst (respondToBytes strtof (line @ [LF]) (SerialManager_ctor mem))) = 0 \<and>
            c_str (cmd_buffer (fst (respondToBytes strtof (line @ [LF]) (SerialManager_ctor mem)))) = [])"
proof -
  have blank: "processLine strtof line = []" using assms by (rule processLine_blank)
  have "snd (respondToBytes strtof (line @ [LF]) (SerialManager_ctor mem)) = [] \<and>
        cmd_len (fst (respondToBytes strtof (line @ [LF]) (SerialManager_ctor mem))) = 0 \<and>
        c_str (cmd_buffer (fst (respondToBytes strtof (line @ [LF]) (SerialManager_ctor mem)))) = []"
    if h: "length mem = 64" "LF \<notin> set line" "length (filter (\<lambda>c. c \<noteq> CR) line) \<le> 63"
  proof -
    let ?f = "filter (\<lambda>c. c \<noteq> CR) line"
    have "\<forall>c\<in>set ?f. isspace c" using assms by simp
    then have "processLine strtof ?f = []" by (rule processLine_blank)
    moreover have "buffer_ok (SerialManager_ctor mem)" using h(1) by (rule ctor_buffer_ok)
    moreover have "cmd_len (SerialManager_ctor mem) = 0" by (simp add: SerialManager_ctor_def)
    ultimately show ?thesis
      using line_with_CR_from_empty [of "SerialManager_ctor mem" line strtof] h by simp
  qed
  with blank show ?thesis by simp
qed

theorem blank_line_is_ignored_witness:
  "processLine strtof_spec ''   '' = [] \<and>
   exec_events demo_sketch (processLine strtof_spec ''   '') (demo_device, []) = (demo_device, []) \<and>
   length (replicate 64 (CHR ''x'')) = 64 \<and> LF \<notin> set ''   '' \<and>
   length (filter (\<lambda>c. c \<noteq> CR) ''   '') \<le> 63 \<and>
   snd (respondToBytes strtof_spec (''   '' @ [LF]) (SerialManager_ctor (replicate 64 (CHR ''x'')))) = [] \<and>
   cmd_len (fst (respondToBytes strtof_spec (''   '' @ [LF]) (SerialManager_ctor (replicate 64 (CHR ''x''))))) = 0"
  using blank_line_is_ignored [of "''   ''" strtof_spec demo_sketch demo_device "[]" "replicate 64 (CHR ''x'')"]
  by (simp add: isspace_def)

section \<open>Dispatch\<close>

lemma processLine_command:
  assumes "dropWhile isspace (c_str line) = cmd # rest"
  shows "processLine strtof line =
           dispatch cmd (fst (numeric_argument strtof (dropWhile isspace rest)))
                        (snd (numeric_argument strtof (dropWhile isspace rest)))"
  using assms by (simp add: processLine_def split_beta)

lemma dropWhile_isspace_command:
  assumes "\<forall>c\<in>set ws. isspace c" "\<not> isspace cmd"
  shows "dropWhile isspace (ws @ cmd # rest) = cmd # rest"
  using assms by (simp add: dropWhile_append2)

lemma c_str_command:
  assumes "\<forall>c\<in>set ws. isspace c" "cmd \<noteq> NUL"
  shows "c_str (ws @ cmd # rest) = ws @ cmd # c_str rest"
proof -
  have "c \<noteq> NUL" if "c \<in> set ws" for c
  proof -
    from that assms(1) have "isspace c" by blast
    then show ?thesis by (auto simp: isspace_def)
  qed
  then have "takeWhile (\<lambda>c. c \<noteq> NUL) (ws @ cmd # rest) =
             ws @ takeWhile (\<lambda>c. c \<noteq> NUL) (cmd # rest)"
    by (rule takeWhile_append2)
  then show ?thesis using assms(2) by (simp add: c_str_def)
qed

lemma dispatch_no_arg: "dispatch cmd False a = dispatch cmd False b"
  by (simp add: dispatch_def)

lemma exec_events_append:
  "exec_events sk (es @ es') w = exec_events sk es' (exec_events sk es w)"
  by (induction es arbitrary: w) simp_all

lemma exec_event_no_call: "\<not> is_call e \<Longrightarrow> fst (exec_event sk e (d, out)) = d"
  by (cases e) simp_all

lemma exec_events_no_call:
  "\<forall>e\<in>set es. \<not> is_call e \<Longrightarrow> fst (exec_events sk es (d, out)) = d"
proof (induction es arbitrary: out)
  case Nil
  then show ?case by simp
next
  case (Cons e es)
  then have "fst (exec_event sk e (d, out)) = d" by (simp add: exec_event_no_call)
  then obtain out' where "exec_event sk e (d, out) = (d, out')"
    by (cases "exec_event sk e (d, out)") simp
  with Cons show ?case by simp
qed

text \<open>
  Claim C6. A line whose command letter (its first byte that is not white space)
  is none of the ten the \<^verbatim>\<open>switch\<close> knows prints the unknown-command
  message with that very byte and the hint, calls no function of the sketch,
  and leaves the device state as it was.
\<close>

theorem unknown_command:
  assumes "dropWhile isspace (c_str line) = cmd # rest"
    and "cmd \<notin> {CHR ''h'', CHR ''?'', CHR ''g'', CHR ''G'', CHR ''C'', CHR ''c'',
                 CHR ''k'', CHR ''K'', CHR ''d'', CHR ''D''}"
  shows "processLine strtof line =
           [Serial_print ''Unknown command: '', Serial_println_char cmd,
            Serial_println ''Type 'h' for help.''] \<and>
         filter is_call (processLine strtof line) = [] \<and>
         exec_events sk (processLine strtof line) (d, out) =
           (d, out @ ''Unknown command: '' @ [cmd] @ CRLF @ ''Type 'h' for help.'' @ CRLF)"
proof -
  have "processLine strtof line =
           [Serial_print ''Unknown command: '', Serial_println_char cmd,
            Serial_println ''Type 'h' for help.'']"
    using assms(2) by (simp add: processLine_command [OF assms(1)] dispatch_def)
  then show ?thesis by simp
qed

theorem unknown_command_witness:
  "dropWhile isspace (c_str '' x 1'') = CHR ''x'' # '' 1'' \<and>
   processLine strtof_spec '' x 1'' =
     [Serial_print ''Unknown command: '', Serial_println_char (CHR ''x''),
      Serial_println ''Type 'h' for help.''] \<and>
   exec_events demo_sketch (processLine strtof_spec '' x 1'') (demo_device, []) =
     (demo_device, ''Unknown command: x'' @ CRLF @ ''Type 'h' for help.'' @ CRLF)"
proof -
  have "dropWhile isspace (c_str '' x 1'') = CHR ''x'' # '' 1''"
    by (simp add: isspace_def c_str_def)
  from unknown_command [OF this, of strtof_spec demo_sketch demo_device "[]"] this
  show ?thesis by simp
qed

text \<open>
  Claim C4. The line \<^verbatim>\<open>k 10\<close> makes one call, \<^verbatim>\<open>setVolKnobGain_dB(10)\<close>
  (with the numeric parser as specified), and on the example sketch the gain
  is 10 afterwards. The line \<^verbatim>\<open>k\<close> makes no call of the sketch: it prints
  the usage message with the current gain to 1 decimal, and the device state
  is as before.
\<close>

theorem gain_command:
  "processLine strtof_spec ''k 10'' = [Call_setVolKnobGain_dB 10] \<and>
   exec_events demo_sketch (processLine strtof_spec ''k 10'') (demo_device, []) =
     (demo_device\<lparr>dev_gain_dB := 10\<rparr>, []) \<and>
   processLine strtof ''k'' =
     [Serial_print ''Usage: k <dB>   (current = '', Serial_print_vol_knob_gain_dB 1,
      Serial_println '' dB)''] \<and>
   filter is_call (processLine strtof ''k'') = [] \<and>
   exec_events sk (processLine strtof ''k'') (d, out) =
     (d, out @ ''Usage: k <dB>   (current = '' @ Serial_float sk (vol_knob_gain_dB sk d) 1 @
         '' dB)'' @ CRLF)"
proof -
  have a: "processLine strtof_spec ''k 10'' = [Call_setVolKnobGain_dB 10]"
    by code_simp
  have b: "processLine strtof ''k'' =
     [Serial_print ''Usage: k <dB>   (current = '', Serial_print_vol_knob_gain_dB 1,
      Serial_println '' dB)'']"
    by (simp add: processLine_def c_str_def isspace_def numeric_argument_def dispatch_def)
  show ?thesis by (simp add: a b demo_sketch_def)
qed

section \<open>Upper and lower case of the command letter\<close>

lemma dispatch_upper:
  "dispatch (CHR ''G'') h a = dispatch (CHR ''g'') h a"
  "dispatch (CHR ''C'') h a = dispatch (CHR ''c'') h a"
  "dispatch (CHR ''K'') h a = dispatch (CHR ''k'') h a"
  "dispatch (CHR ''D'') h a = dispatch (CHR ''d'') h a"
  by (simp_all add: dispatch_def)

text \<open>
  Claim C1, as stated, fails for the letter h: the line \<^verbatim>\<open>H\<close> is an unknown
  command, the line \<^verbatim>\<open>h\<close> prints the help.
\<close>

theorem uppercase_H_is_not_help:
  "snd (respondToBytes strtof_spec [CHR ''H'', LF] (SerialManager_ctor (replicate 64 NUL))) =
     [Serial_print ''Unknown command: '', Serial_println_char (CHR ''H''),
      Serial_println ''Type 'h' for help.''] \<and>
   snd (respondToBytes strtof_spec [CHR ''h'', LF] (SerialManager_ctor (replicate 64 NUL))) = printHelp \<and>
   snd (respondToBytes strtof_spec [CHR ''H'', LF] (SerialManager_ctor (replicate 64 NUL))) \<noteq>
   snd (respondToBytes strtof_spec [CHR ''h'', LF] (SerialManager_ctor (replicate 64 NUL)))"
  by code_simp

text \<open>
  Claim C1, amended. For the letters g, c, k and d, a line with the uppercase
  letter (after any white space, before any rest) is dispatched exactly as the
  line with the lowercase letter; \<^verbatim>\<open>D 25\<close> and \<^verbatim>\<open>d 25\<close>, fed byte by byte
  and ended by a newline, give the same events and the same final state. The
  help is \<^verbatim>\<open>h\<close> or \<^verbatim>\<open>?\<close>, as the help text itself says; \<^verbatim>\<open>H\<close> is an
  unknown command.
\<close>

theorem uppercase_letters_g_c_k_d:
  assumes "\<forall>x\<in>set ws. isspace x"
    and "(upper, lower) \<in> {(CHR ''G'', CHR ''g''), (CHR ''C'', CHR ''c''),
                            (CHR ''K'', CHR ''k''), (CHR ''D'', CHR ''d'')}"
  shows "processLine strtof (ws @ upper # rest) = processLine strtof (ws @ lower # rest) \<and>
         (length mem = 64 \<longrightarrow>
            respondToBytes strtof (''D 25'' @ [LF]) (SerialManager_ctor mem) =
            respondToBytes strtof (''d 25'' @ [LF]) (SerialManager_ctor mem)) \<and>
         processLine strtof (ws @ CHR ''?'' # rest) = processLine strtof (ws @ CHR ''h'' # rest) \<and>
         processLine strtof (ws @ CHR ''h'' # rest) = printHelp \<and>
         processLine strtof (ws @ CHR ''H'' # rest) =
           [Serial_print ''Unknown command: '', Serial_println_char (CHR ''H''),
            Serial_println ''Type 'h' for help.'']"
proof -
  have cmd: "processLine strtof (ws @ c # rest) =
               dispatch c (fst (numeric_argument strtof (dropWhile isspace (c_str rest))))
                          (snd (numeric_argument strtof (dropWhile isspace (c_str rest))))"
    if "\<not> isspace c" "c \<noteq> NUL" for c
  proof (rule processLine_command)
    have "c_str (ws @ c # rest) = ws @ c # c_str rest"
      using assms(1) that(2) by (rule c_str_command)
    then show "dropWhile isspace (c_str (ws @ c # rest)) = c # c_str rest"
      using assms(1) that(1) by (simp add: dropWhile_isspace_command)
  qed
  have sp: "\<not> isspace upper" "upper \<noteq> NUL" "\<not> isspace lower" "lower \<noteq> NUL"
    using assms(2) by (auto simp: isspace_def)
  have a: "processLine strtof (ws @ upper # rest) = processLine strtof (ws @ lower # rest)"
    using assms(2) by (auto simp: cmd [OF sp(1,2)] cmd [OF sp(3,4)] dispatch_upper)
  have b: "respondToBytes strtof (''D 25'' @ [LF]) (SerialManager_ctor mem) =
           respondToBytes strtof (''d 25'' @ [LF]) (SerialManager_ctor mem)"
    if mem: "length mem = 64"
  proof -
    have ok: "buffer_ok (SerialManager_ctor mem)" using mem by (rule ctor_buffer_ok)
    have z: "cmd_len (SerialManager_ctor mem) = 0" by (simp add: SerialManager_ctor_def)
    have "processLine strtof ''D 25'' = processLine strtof ''d 25''"
      by (simp add: c_str_def processLine_def isspace_def dispatch_upper split_beta)
    then show ?thesis
      using line_from_empty [OF ok z, of "''D 25''" strtof]
        line_from_empty [OF ok z, of "''d 25''" strtof]
      by simp
  qed
  have c: "processLine strtof (ws @ CHR ''?'' # rest) = printHelp"
    "processLine strtof (ws @ CHR ''h'' # rest) = printHelp"
    "processLine strtof (ws @ CHR ''H'' # rest) =
           [Serial_print ''Unknown command: '', Serial_println_char (CHR ''H''),
            Serial_println ''Type 'h' for help.'']"
    by (simp_all add: cmd isspace_def dispatch_def)
  from a b c show ?thesis by simp
qed

theorem uppercase_letters_g_c_k_d_witness:
  "processLine strtof_spec (''  '' @ CHR ''K'' # '' 10'') = [Call_setVolKnobGain_dB 10] \<and>
   length (replicate 64 (CHR ''x'')) = 64 \<and>
   respondToBytes strtof_spec (''D 25'' @ [LF]) (SerialManager_ctor (replicate 64 (CHR ''x''))) =
   respondToBytes strtof_spec (''d 25'' @ [LF]) (SerialManager_ctor (replicate 64 (CHR ''x'')))"
proof -
  have "processLine strtof_spec (''  '' @ CHR ''k'' # '' 10'') = [Call_setVolKnobGain_dB 10]"
    by code_simp
  then show ?thesis
    using uppercase_letters_g_c_k_d [of "''  ''" "CHR ''K''" "CHR ''k''" strtof_spec "'' 10''"
        "replicate 64 (CHR ''x'')"]
    by (simp add: isspace_def)
qed

section \<open>The numeric argument\<close>

text \<open>The specified parser never consumes more than the string holds.\<close>

lemma sign_prefix_length: "length (snd (sign_prefix s)) \<le> length s"
  by (simp add: sign_prefix_def split: list.split)

lemma exponent_part_le: "snd (exponent_part s) \<le> length s"
proof (cases s)
  case Nil
  then show ?thesis by (simp add: exponent_part_def)
next
  case (Cons c t)
  have "length (takeWhile isdigit (snd (sign_prefix t))) \<le> length (snd (sign_prefix t))"
    by (rule length_takeWhile_le)
  moreover have "length (snd (sign_prefix t)) \<le> length t" by (rule sign_prefix_length)
  ultimately show ?thesis
    using Cons by (auto simp: exponent_part_def split_beta Let_def)
qed

lemma strtof_spec_consumed_le: "snd (strtof_spec s) \<le> length s"
proof -
  obtain neg s1 where sp: "sign_prefix s = (neg, s1)" by (cases "sign_prefix s")
  define ip where "ip = takeWhile isdigit s1"
  define r1 where "r1 = dropWhile isdigit s1"
  define dot where "dot = (case r1 of [] \<Rightarrow> False | c # t \<Rightarrow> c = CHR ''.'')"
  define fp where "fp = (if dot then takeWhile isdigit (tl r1) else [])"
  define r2 where "r2 = (if dot then dropWhile isdigit (tl r1) else r1)"
  have l1: "length s1 \<le> length s" using sign_prefix_length [of s] sp by simp
  have l2: "length ip + length r1 = length s1"
    unfolding ip_def r1_def
    by (metis length_append takeWhile_dropWhile_id)
  have l3: "(if dot then 1 else 0) + length fp + length r2 = length r1"
  proof (cases dot)
    case True
    then have "r1 \<noteq> []" by (auto simp: dot_def)
    then have "length r1 = Suc (length (tl r1))" by (cases r1) simp_all
    moreover have "length fp + length r2 = length (tl r1)"
      using True unfolding fp_def r2_def
      by (metis length_append takeWhile_dropWhile_id)
    ultimately show ?thesis using True by simp
  next
    case False
    then show ?thesis by (simp add: fp_def r2_def)
  qed
  have l4: "snd (exponent_part r2) \<le> length r2" by (rule exponent_part_le)
  have "snd (strtof_spec s) =
          (if ip = [] \<and> fp = [] then 0
           else (length s - length s1) + length ip + (if dot then 1 else 0) + length fp
                + snd (exponent_part r2))"
    by (simp add: strtof_spec_def sp Let_def split_beta ip_def r1_def dot_def fp_def r2_def)
  with l1 l2 l3 l4 show ?thesis by (simp split: if_splits)
qed

text \<open>
  Claim C5. For every \<^verbatim>\<open>strtof\<close> whose end pointer stays inside the string:
  an argument is present exactly when the parse, started at the first byte
  that is not white space after the command letter, consumes at least one
  character, and the dispatch depends on nothing else of the rest of the line.
  What follows the consumed characters is never looked at: the line
  \<^verbatim>\<open>k 10abc\<close> makes the single call \<^verbatim>\<open>setVolKnobGain_dB(10)\<close> and prints
  nothing.
\<close>

theorem argument_presence:
  assumes "\<And>s. snd (strtof s) \<le> length s"
  shows "(fst (numeric_argument strtof arg_text) \<longleftrightarrow> 0 < snd (strtof arg_text)) \<and>
         (dropWhile isspace (c_str line) = cmd # rest \<longrightarrow>
            processLine strtof line =
              dispatch cmd (0 < snd (strtof (dropWhile isspace rest)))
                           (fst (strtof (dropWhile isspace rest)))) \<and>
         (dropWhile isspace (c_str line) = CHR ''k'' # rest \<and> 0 < snd (strtof (dropWhile isspace rest)) \<longrightarrow>
            processLine strtof line = [Call_setVolKnobGain_dB (fst (strtof (dropWhile isspace rest)))]) \<and>
         strtof_spec ''10abc'' = (10, 2) \<and>
         processLine strtof_spec ''k 10abc'' = [Call_setVolKnobGain_dB 10]"
proof -
  have zero: "snd (strtof []) = 0" using assms [of "[]"] by simp
  have a: "fst (numeric_argument strtof t) \<longleftrightarrow> 0 < snd (strtof t)" for t
    by (cases t) (simp_all add: numeric_argument_def zero)
  have b: "processLine strtof line =
              dispatch cmd (0 < snd (strtof (dropWhile isspace rest)))
                           (fst (strtof (dropWhile isspace rest)))"
    if "dropWhile isspace (c_str line) = cmd # rest" for cmd
  proof (cases "dropWhile isspace rest")
    case Nil
    show ?thesis
      unfolding processLine_command [OF that] Nil
      using dispatch_no_arg [of cmd 0 "fst (strtof [])"]
      by (simp add: numeric_argument_def zero)
  next
    case (Cons x xs)
    then show ?thesis
      by (simp add: processLine_command [OF that] numeric_argument_def)
  qed
  have c: "processLine strtof line = [Call_setVolKnobGain_dB (fst (strtof (dropWhile isspace rest)))]"
    if "dropWhile isspace (c_str line) = CHR ''k'' # rest" "0 < snd (strtof (dropWhile isspace rest))"
    using b [of "CHR ''k''"] that by (simp add: dispatch_def)
  have d: "strtof_spec ''10abc'' = (10, 2)" by code_simp
  have e: "processLine strtof_spec ''k 10abc'' = [Call_setVolKnobGain_dB 10]" by code_simp
  from a b c d e show ?thesis by blast
qed

theorem argument_presence_witness:
  "fst (numeric_argument strtof_spec ''10abc'') \<and> 0 < snd (strtof_spec ''10abc'') \<and>
   \<not> fst (numeric_argument strtof_spec ''abc'') \<and> snd (strtof_spec ''abc'') = 0 \<and>
   dropWhile isspace (c_str '' k  10abc'') = CHR ''k'' # ''  10abc'' \<and>
   processLine strtof_spec '' k  10abc'' = [Call_setVolKnobGain_dB 10]"
proof -
  have 1: "strtof_spec ''10abc'' = (10, 2)" by code_simp
  have 2: "strtof_spec ''abc'' = (0, 0)" by code_simp
  show ?thesis
    using argument_presence [of strtof_spec "''10abc''" "'' k  10abc''" "CHR ''k''" "''  10abc''",
        OF strtof_spec_consumed_le]
      argument_presence [of strtof_spec "''abc''", OF strtof_spec_consumed_le]
    by (simp add: 1 2 isspace_def c_str_def)
qed

section \<open>Repeating the status command\<close>

lemma processLine_g:
  "processLine strtof ''g'' =
     [Call_printGainSettings, Serial_print ''Delay = '', Serial_print_delay_ms, Serial_println '' ms'']"
  by (simp add: processLine_def c_str_def isspace_def numeric_argument_def dispatch_def)

lemma g_line:
  assumes "buffer_ok s" "cmd_len s = 0"
  shows "snd (respondToBytes strtof (''g'' @ [LF]) s) = processLine strtof ''g'' \<and>
         buffer_ok (fst (respondToBytes strtof (''g'' @ [LF]) s)) \<and>
         cmd_len (fst (respondToBytes strtof (''g'' @ [LF]) s)) = 0"
proof -
  have "respondToBytes strtof (''g'' @ [LF]) s =
          (\<lparr>cmd_buffer = (''g'' @ NUL # drop (Suc (length ''g'')) (cmd_buffer s))[0 := NUL], cmd_len = 0\<rparr>,
           processLine strtof ''g'')"
    using assms by (rule line_from_empty) simp_all
  moreover have "buffer_ok (fst (respondToBytes strtof (''g'' @ [LF]) s))"
    using assms(1) by (rule respondToBytes_buffer_ok)
  ultimately show ?thesis by simp
qed

lemma g_lines:
  assumes "buffer_ok s" "cmd_len s = 0"
  shows "snd (respondToBytes strtof (concat (replicate n (''g'' @ [LF]))) s) =
           concat (replicate n (processLine strtof ''g''))"
proof -
  define l where "l = ''g'' @ [LF]"
  have "snd (respondToBytes strtof (concat (replicate n l)) s) =
           concat (replicate n (processLine strtof ''g''))"
    using assms
  proof (induction n arbitrary: s)
    case 0
    then show ?case by simp
  next
    case (Suc n)
    let ?s1 = "fst (respondToBytes strtof l s)"
    have one: "snd (respondToBytes strtof l s) = processLine strtof ''g''"
      "buffer_ok ?s1" "cmd_len ?s1 = 0"
      using g_line [OF Suc.prems, of strtof] by (simp_all add: l_def)
    have "snd (respondToBytes strtof (concat (replicate n l)) ?s1) =
             concat (replicate n (processLine strtof ''g''))"
      using one(2,3) by (rule Suc.IH)
    then show ?case
      using one(1) by (simp add: respondToBytes_append)
  qed
  then show ?thesis by (simp add: l_def)
qed

lemma exec_g:
  assumes "fst (printGainSettings sk d) = d"
  shows "exec_events sk (processLine strtof ''g'') (d, out) =
           (d, out @ snd (printGainSettings sk d) @ ''Delay = '' @ Serial_float sk (delay_ms sk d) 2 @
               '' ms'' @ CRLF)"
  using assms by (simp add: processLine_g)

lemma exec_replicate:
  assumes "\<And>out. exec_events sk es (d, out) = (d, out @ t)"
  shows "exec_events sk (concat (replicate n es)) (d, out) = (d, out @ concat (replicate n t))"
proof (induction n arbitrary: out)
  case 0
  then show ?case by simp
next
  case (Suc n)
  then show ?case by (simp add: exec_events_append assms)
qed

text \<open>
  Claim C9. Feeding the line \<^verbatim>\<open>g\<close> \<open>n\<close> times makes the same four calls
  each time. Run on a sketch whose \<^verbatim>\<open>printGainSettings\<close> leaves the device
  state alone, nothing changes that state between the repetitions, and the
  console receives the same text \<open>n\<close> times over: the report of the gain, then
  the delay with 2 decimals.
\<close>

theorem g_repeats_identically:
  assumes "length mem = 64" and "fst (printGainSettings sk d) = d"
  shows "snd (respondToBytes strtof (concat (replicate n (''g'' @ [LF]))) (SerialManager_ctor mem)) =
           concat (replicate n
             [Call_printGainSettings, Serial_print ''Delay = '', Serial_print_delay_ms,
              Serial_println '' ms'']) \<and>
         exec_events sk
           (snd (respondToBytes strtof (concat (replicate n (''g'' @ [LF]))) (SerialManager_ctor mem)))
           (d, out) =
           (d, out @ concat (replicate n
                  (snd (printGainSettings sk d) @ ''Delay = '' @ Serial_float sk (delay_ms sk d) 2 @
                   '' ms'' @ CRLF)))"
proof -
  have ok: "buffer_ok (SerialManager_ctor mem)" using assms(1) by (rule ctor_buffer_ok)
  have z: "cmd_len (SerialManager_ctor mem) = 0" by (simp add: SerialManager_ctor_def)
  have ev: "snd (respondToBytes strtof (concat (replicate n (''g'' @ [LF]))) (SerialManager_ctor mem)) =
              concat (replicate n (processLine strtof ''g''))"
    using ok z by (rule g_lines)
  have "exec_events sk (concat (replicate n (processLine strtof ''g''))) (d, out) =
          (d, out @ concat (replicate n
                  (snd (printGainSettings sk d) @ ''Delay = '' @ Serial_float sk (delay_ms sk d) 2 @
                   '' ms'' @ CRLF)))"
    by (rule exec_replicate) (rule exec_g [OF assms(2)])
  then show ?thesis
    unfolding ev by (simp only: processLine_g simp_thms)
qed

theorem g_repeats_identically_witness:
  "length (replicate 64 (CHR ''x'')) = 64 \<and> fst (printGainSettings demo_sketch demo_device) = demo_device \<and>
   exec_events demo_sketch
     (snd (respondToBytes strtof_spec (concat (replicate 3 (''g'' @ [LF])))
            (SerialManager_ctor (replicate 64 (CHR ''x'')))))
     (demo_device, []) =
     (demo_device, concat (replicate 3 (''Gain settings'' @ CRLF @ ''Delay = 0 ms'' @ CRLF)))"
proof -
  have h: "fst (printGainSettings demo_sketch demo_device) = demo_device"
    by (simp add: demo_sketch_def)
  have "snd (printGainSettings demo_sketch demo_device) = ''Gain settings'' @ CRLF"
    "Serial_float demo_sketch (delay_ms demo_sketch demo_device) 2 = ''0''"
    by (simp_all add: demo_sketch_def demo_device_def)
  moreover have m: "length (replicate 64 (CHR ''x'')) = 64" by simp
  ultimately show ?thesis
    using g_repeats_identically [where mem = "replicate 64 (CHR ''x'')" and sk = demo_sketch
        and d = demo_device and n = 3 and strtof = strtof_spec and out = "[]", OF m h, THEN conjunct2] h
    by simp
qed

end
